theory Spec2Isabelle
  imports Complex_Main
begin

section \<open>The display dimmer (class \<open>Dimmer\<close> of gui.py)\<close>

text \<open>
  What the dimmer's methods can raise: \<open>QTimer.start\<close> takes a C \<open>int\<close> and raises
  \<open>OverflowError\<close> for a number of milliseconds outside its range. \<open>KeyError\<close> belongs to
  the dispatcher: a device id that is not in \<open>dimmers\<close>.
\<close>

datatype error = KeyError string | OverflowError

text \<open>
  A \<open>QTimer\<close> object as the dimmer uses it. Every \<open>QTimer()\<close> makes a new object:
  \<open>ident\<close> tells the objects of one dimmer apart, in the order of their construction.
  \<open>active\<close> is what \<open>isActive()\<close> reports, \<open>interval\<close> is in milliseconds. A field
  holding \<open>None\<close> is \<open>None\<close>; a field holding a timer object is \<open>Some q\<close>, which
  Python treats as true.
\<close>

record qtimer =
  ident :: nat
  active :: bool
  single_shot :: bool
  interval :: int

text \<open>
  The fields of a \<open>Dimmer\<close>. \<open>dimmer_brightness\<close>, \<open>timer\<close> and \<open>change_timer\<close> are
  the private attributes \<open>__dimmer_brightness\<close>, \<open>__timer\<close> and \<open>__change_timer\<close>. The
  brightness callback is an effect on the device: \<open>callback_log\<close> lists the arguments it
  has been invoked with, oldest first. \<open>timers_made\<close> counts the \<open>QTimer\<close> objects the
  dimmer has constructed.
\<close>

record dimmer =
  timeout :: int
  brightness :: int
  stopped :: bool
  dimmer_brightness :: int
  timer :: "qtimer option"
  change_timer :: "qtimer option"
  callback_log :: "int list"
  timers_made :: nat

text \<open>The class attributes give the defaults; \<open>__init__\<close> sets timeout and brightness.\<close>

definition Dimmer :: "int \<Rightarrow> int \<Rightarrow> dimmer" where
  "Dimmer t b =
     \<lparr>timeout = t, brightness = b, stopped = False, dimmer_brightness = - 1,
      timer = None, change_timer = None, callback_log = [], timers_made = 0\<rparr>"

text \<open>\<open>if self.__timer: self.__timer.stop()\<close>\<close>

definition stop_timer :: "qtimer option \<Rightarrow> qtimer option" where
  "stop_timer t = (case t of None \<Rightarrow> None | Some q \<Rightarrow> Some (q\<lparr>active := False\<rparr>))"

text \<open>\<open>self.__timer and self.__timer.isActive()\<close>\<close>

definition is_active :: "qtimer option \<Rightarrow> bool" where
  "is_active t = (case t of None \<Rightarrow> False | Some q \<Rightarrow> active q)"

text \<open>
  \<open>QTimer()\<close> followed by \<open>setSingleShot(True)\<close>: the new timer is not running yet. The
  connection of its signal to \<open>change_brightness\<close> is in \<open>timer_fires\<close> and
  \<open>change_timer_fires\<close> below.
\<close>

definition new_single_shot :: "nat \<Rightarrow> qtimer" where
  "new_single_shot n = \<lparr>ident = n, active = False, single_shot = True, interval = 0\<rparr>"

text \<open>
  \<open>q.start(ms)\<close>. The binding converts \<open>ms\<close> to a C \<open>int\<close> and raises \<open>OverflowError\<close>
  when it does not fit; the timer is then left as it was. Otherwise the interval is set
  and the timer started. Qt does not run a timer with a negative interval: it prints a
  warning and the timer never fires (see \<open>can_fire\<close>), though \<open>isActive()\<close> holds
  for it until it is stopped.
\<close>

definition start :: "int \<Rightarrow> qtimer \<Rightarrow> error + qtimer" where
  "start ms q =
     (if ms < - 2147483648 \<or> 2147483647 < ms then Inl OverflowError
      else Inr (q\<lparr>active := True, interval := ms\<rparr>))"

definition can_fire :: "qtimer \<Rightarrow> bool" where
  "can_fire q \<longleftrightarrow> active q \<and> 0 \<le> interval q"

definition brightness_callback :: "int \<Rightarrow> dimmer \<Rightarrow> dimmer" where
  "brightness_callback v d = d\<lparr>callback_log := callback_log d @ [v]\<rparr>"

definition stop :: "dimmer \<Rightarrow> dimmer" where
  "stop d =
     (let d1 = d\<lparr>timer := stop_timer (timer d)\<rparr>;
          d2 = d1\<lparr>change_timer := stop_timer (change_timer d1)\<rparr>;
          d3 = d2\<lparr>dimmer_brightness := brightness d2\<rparr>;
          d4 = brightness_callback (brightness d3) d3
      in d4\<lparr>stopped := True\<rparr>)"

text \<open>
  \<open>reset\<close> returns what the call returns or raises, together with the dimmer as the
  call leaves it. When \<open>start\<close> raises, the new timer is already in \<open>__timer\<close>, not
  running, and the rest of the method is not executed.
\<close>

definition reset :: "dimmer \<Rightarrow> (error + bool) \<times> dimmer" where
  "reset d =
     (let d0 = d\<lparr>stopped := False\<rparr>;
          d1 = d0\<lparr>timer := stop_timer (timer d0)\<rparr>;
          d2 = d1\<lparr>change_timer := stop_timer (change_timer d1)\<rparr>
      in if timeout d2 \<noteq> 0
         then (let q = new_single_shot (timers_made d2);
                   d3 = d2\<lparr>timer := Some q, timers_made := Suc (timers_made d2)\<rparr>
               in case start (timeout d3 * 1000) q of
                    Inl e \<Rightarrow> (Inl e, d3)
                  | Inr q' \<Rightarrow>
                      (let d4 = d3\<lparr>timer := Some q'\<rparr>
                       in if dimmer_brightness d4 \<noteq> brightness d4
                          then (Inr True, (brightness_callback (brightness d4) d4)
                                  \<lparr>dimmer_brightness := brightness d4\<rparr>)
                          else (Inr False, d4)))
         else if dimmer_brightness d2 \<noteq> brightness d2
              then (Inr True, (brightness_callback (brightness d2) d2)
                      \<lparr>dimmer_brightness := brightness d2\<rparr>)
              else (Inr False, d2))"

text \<open>\<open>start(10)\<close> cannot raise: the case is there because \<open>start\<close> can.\<close>

definition change_brightness :: "dimmer \<Rightarrow> dimmer" where
  "change_brightness d =
     (if dimmer_brightness d \<noteq> 0
      then (let d1 = d\<lparr>dimmer_brightness := dimmer_brightness d - 1\<rparr>;
                d2 = brightness_callback (dimmer_brightness d1) d1;
                q = new_single_shot (timers_made d2);
                d3 = d2\<lparr>change_timer := Some q, timers_made := Suc (timers_made d2)\<rparr>
            in case start 10 q of
                 Inl e \<Rightarrow> d3
               | Inr q' \<Rightarrow> d3\<lparr>change_timer := Some q'\<rparr>)
      else d\<lparr>change_timer := None\<rparr>)"

text \<open>
  \<open>dim\<close> returns nothing; what it can raise is what its call of \<open>reset\<close> raises.
\<close>

definition dim :: "bool \<Rightarrow> dimmer \<Rightarrow> error option \<times> dimmer" where
  "dim toggle d =
     (if stopped d then (None, d)
      else if toggle \<and> dimmer_brightness d = 0
      then (case reset d of (Inl e, d') \<Rightarrow> (Some e, d') | (Inr r, d') \<Rightarrow> (None, d'))
      else if is_active (timer d)
      then (let d1 = d\<lparr>timer := stop_timer (timer d)\<rparr>
            in if change_timer d1 = None \<and> dimmer_brightness d1 \<noteq> 0
               then (None, change_brightness d1) else (None, d1))
      else (None, d))"

text \<open>
  The two timers are connected to \<open>change_brightness\<close>. When a running timer expires, a
  single-shot timer stops itself and then emits its signal; a timer that is not running
  never fires.
\<close>

definition expire :: "qtimer \<Rightarrow> qtimer" where
  "expire q = (if single_shot q then q\<lparr>active := False\<rparr> else q)"

definition timer_fires :: "dimmer \<Rightarrow> dimmer" where
  "timer_fires d =
     (case timer d of
        None \<Rightarrow> d
      | Some q \<Rightarrow> if can_fire q then change_brightness (d\<lparr>timer := Some (expire q)\<rparr>) else d)"

definition change_timer_fires :: "dimmer \<Rightarrow> dimmer" where
  "change_timer_fires d =
     (case change_timer d of
        None \<Rightarrow> d
      | Some q \<Rightarrow>
          if can_fire q then change_brightness (d\<lparr>change_timer := Some (expire q)\<rparr>) else d)"

text \<open>
  What can happen to a dimmer after its construction, and a run of such events. A call
  that raises leaves the dimmer as it was when the exception was raised.
\<close>

datatype dimmer_op = Reset | Stop | Dim bool | TimerFires | ChangeTimerFires

fun apply_op :: "dimmer_op \<Rightarrow> dimmer \<Rightarrow> dimmer" where
  "apply_op Reset d = snd (reset d)"
| "apply_op Stop d = stop d"
| "apply_op (Dim toggle) d = snd (dim toggle d)"
| "apply_op TimerFires d = timer_fires d"
| "apply_op ChangeTimerFires d = change_timer_fires d"

fun run :: "dimmer_op list \<Rightarrow> dimmer \<Rightarrow> dimmer" where
  "run [] d = d"
| "run (op # ops) d = run ops (apply_op op d)"

text \<open>Whether a run has set the brightness from \<open>brightness\<close> at least once.\<close>

fun sets_brightness :: "dimmer_op \<Rightarrow> bool" where
  "sets_brightness Reset = True"
| "sets_brightness Stop = True"
| "sets_brightness _ = False"

section \<open>Strings\<close>

text \<open>
  Python strings are modelled as lists of characters. \<open>str.lower\<close> is modelled on the
  letters A to Z and leaves every other character as it is; \<open>str.strip\<close> removes the
  ASCII white space characters.
\<close>

definition lower_char :: "char \<Rightarrow> char" where
  "lower_char c =
     (case map_of (zip ''ABCDEFGHIJKLMNOPQRSTUVWXYZ'' ''abcdefghijklmnopqrstuvwxyz'') c of
        None \<Rightarrow> c
      | Some l \<Rightarrow> l)"

definition lower :: "string \<Rightarrow> string" where
  "lower s = map lower_char s"

definition startswith :: "string \<Rightarrow> string \<Rightarrow> bool" where
  "startswith s p \<longleftrightarrow> take (length p) s = p"

definition isspace :: "char \<Rightarrow> bool" where
  "isspace c \<longleftrightarrow>
     c \<in> set [CHR 0x09, CHR 0x0A, CHR 0x0B, CHR 0x0C, CHR 0x0D,
               CHR 0x1C, CHR 0x1D, CHR 0x1E, CHR 0x1F, CHR 0x20]"

definition strip :: "string \<Rightarrow> string" where
  "strip s = rev (dropWhile isspace (rev (dropWhile isspace s)))"

text \<open>\<open>s.replace(" ", "")\<close>\<close>

definition remove_spaces :: "string \<Rightarrow> string" where
  "remove_spaces s = filter (\<lambda>c. c \<noteq> CHR '' '') s"

text \<open>\<open>s.split(sep)\<close> for a one-character separator: never the empty list.\<close>

fun split_on :: "char \<Rightarrow> string \<Rightarrow> string list" where
  "split_on sep [] = [[]]"
| "split_on sep (c # cs) =
     (if c = sep then [] # split_on sep cs
      else (let r = split_on sep cs in (c # hd r) # tl r))"

section \<open>The macro of a key press\<close>

text \<open>
  A Python float: what \<open>float(...)\<close> can return and \<open>time.sleep\<close> can be given. Only
  zero is false in a condition.
\<close>

datatype pyfloat = Finite real | PosInf | NegInf | NaN

definition truthy :: "pyfloat \<Rightarrow> bool" where
  "truthy f \<longleftrightarrow> f \<noteq> Finite 0"

text \<open>
  The value of \<open>getattr(Key, key_name.lower(), key_name)\<close>: a member of the keyboard
  library's \<open>Key\<close> enumeration, or the string itself when the enumeration has no such
  name.
\<close>

datatype 'k key_name = KeyEnum 'k | Str string

text \<open>
  The calls the dispatcher makes on its collaborators (process spawning, the keyboard
  controller, \<open>time.sleep\<close>, the brightness functions of \<open>api\<close>), and the messages it prints
  when one of them raises.
\<close>

datatype 'k call =
    Popen string
  | Press "'k key_name"
  | Release "'k key_name"
  | Sleep pyfloat
  | Type string
  | ApiChangeBrightness string int
  | ApiGetBrightness string

datatype 'k report =
    CommandFailed string
  | CouldNotConvert string
  | CouldNotSleep pyfloat
  | CouldNotPress "'k key_name"
  | CouldNotRelease "'k key_name"
  | CouldNotWrite
  | CouldNotChangeBrightness

datatype 'k event = Call "'k call" | Print "'k report"

text \<open>What is bound to a button; an empty string or a zero is "not bound".\<close>

record button_action =
  command :: string
  keys :: string
  write_text :: string
  brightness_change :: int
  switch_page :: int
  target_device :: string

text \<open>
  What the dispatcher takes from outside gui.py: the \<open>Key\<close> enumeration by attribute
  name, Python's \<open>float\<close> (\<open>None\<close> when it raises), the button configuration, and
  whether a call raises an exception, given everything that has happened before it.
\<close>

record 'k env =
  Key :: "string \<Rightarrow> 'k option"
  float :: "string \<Rightarrow> pyfloat option"
  raises :: "'k event list \<Rightarrow> 'k call \<Rightarrow> bool"
  button :: "string \<Rightarrow> int \<Rightarrow> int \<Rightarrow> button_action"

text \<open>\<open>try: call except Exception: print(report)\<close>\<close>

definition attempt :: "'k env \<Rightarrow> 'k call \<Rightarrow> 'k report \<Rightarrow> 'k event list \<Rightarrow> 'k event list" where
  "attempt E c r tr = (if raises E tr c then tr @ [Call c, Print r] else tr @ [Call c])"

definition replace_special_keys :: "string \<Rightarrow> string" where
  "replace_special_keys key =
     (if lower key = ''plus'' then ''+''
      else if lower key = ''comma'' then '',''
      else if startswith (lower key) ''delay'' then lower key
      else key)"

definition translate :: "'k env \<Rightarrow> string \<Rightarrow> 'k key_name" where
  "translate E key_name =
     (case Key E (lower key_name) of None \<Rightarrow> Str key_name | Some k \<Rightarrow> KeyEnum k)"

definition section_keys :: "'k env \<Rightarrow> string \<Rightarrow> 'k key_name list" where
  "section_keys E section =
     map (translate E) (map replace_special_keys (split_on CHR ''+'' section))"

text \<open>\<open>isinstance(key_name, str) and key_name.startswith("delay")\<close>\<close>

fun is_delay :: "'k key_name \<Rightarrow> bool" where
  "is_delay (Str s) = startswith s ''delay''"
| "is_delay (KeyEnum k) = False"

text \<open>
  The sleep time of a delay token and what is printed while finding it.
  \<open>key_name.split("delay", 1)[1]\<close> of a string that starts with "delay" is the string
  without its first five characters.
\<close>

definition sleep_time :: "'k env \<Rightarrow> string \<Rightarrow> pyfloat \<times> 'k event list" where
  "sleep_time E key_name =
     (let sleep_time_arg = drop 5 key_name
      in if sleep_time_arg \<noteq> []
         then (case float E sleep_time_arg of
                 Some f \<Rightarrow> (f, [])
               | None \<Rightarrow> (Finite 0, [Print (CouldNotConvert sleep_time_arg)]))
         else (Finite (1 / 2), []))"

definition delay_step :: "'k env \<Rightarrow> string \<Rightarrow> 'k event list \<Rightarrow> 'k event list" where
  "delay_step E key_name tr =
     (let (t, printed) = sleep_time E key_name;
          tr1 = tr @ printed
      in if truthy t then attempt E (Sleep t) (CouldNotSleep t) tr1 else tr1)"

definition press_step :: "'k env \<Rightarrow> 'k key_name \<Rightarrow> 'k event list \<Rightarrow> 'k event list" where
  "press_step E key_name tr =
     (if is_delay key_name
      then (case key_name of Str s \<Rightarrow> delay_step E s tr | KeyEnum k \<Rightarrow> tr)
      else attempt E (Press key_name) (CouldNotPress key_name) tr)"

definition release_step :: "'k env \<Rightarrow> 'k key_name \<Rightarrow> 'k event list \<Rightarrow> 'k event list" where
  "release_step E key_name tr =
     (if \<not> is_delay key_name
      then attempt E (Release key_name) (CouldNotRelease key_name) tr
      else tr)"

fun press_all :: "'k env \<Rightarrow> 'k key_name list \<Rightarrow> 'k event list \<Rightarrow> 'k event list" where
  "press_all E [] tr = tr"
| "press_all E (k # ks) tr = press_all E ks (press_step E k tr)"

fun release_all :: "'k env \<Rightarrow> 'k key_name list \<Rightarrow> 'k event list \<Rightarrow> 'k event list" where
  "release_all E [] tr = tr"
| "release_all E (k # ks) tr = release_all E ks (release_step E k tr)"

definition run_section :: "'k env \<Rightarrow> string \<Rightarrow> 'k event list \<Rightarrow> 'k event list" where
  "run_section E section tr =
     (let ks = section_keys E section in release_all E ks (press_all E ks tr))"

fun run_sections :: "'k env \<Rightarrow> string list \<Rightarrow> 'k event list \<Rightarrow> 'k event list" where
  "run_sections E [] tr = tr"
| "run_sections E (s # ss) tr = run_sections E ss (run_section E s tr)"

definition run_keys :: "'k env \<Rightarrow> string \<Rightarrow> 'k event list \<Rightarrow> 'k event list" where
  "run_keys E ks tr =
     (if ks \<noteq> []
      then run_sections E (split_on CHR '','' (remove_spaces (strip ks))) tr
      else tr)"

section \<open>The dispatcher (\<open>handle_keypress\<close>)\<close>

text \<open>
  What a key press can change: the trace of calls and messages, the dimmers by device
  id, and the page and the brightness that \<open>api\<close> keeps for each device.
\<close>

record 'k world =
  trace :: "'k event list"
  dimmers :: "string \<Rightarrow> dimmer option"
  pages :: "string \<Rightarrow> int"
  levels :: "string \<Rightarrow> int"

text \<open>
  Modelled from the spec: the module \<open>api\<close> is not part of gui.py. \<open>get_page\<close> and
  \<open>set_page\<close> read and set the active page index of a device.
\<close>

definition get_page :: "'k world \<Rightarrow> string \<Rightarrow> int" where
  "get_page w deck_id = pages w deck_id"

definition set_page :: "string \<Rightarrow> int \<Rightarrow> 'k world \<Rightarrow> 'k world" where
  "set_page deck_id page w = w\<lparr>pages := (pages w)(deck_id := page)\<rparr>"

text \<open>
  Modelled from the spec: \<open>api.change_brightness\<close> computes the new brightness, clamps it
  to 0..100 and applies it to the device; \<open>api.get_brightness\<close> reads the level back.
\<close>

definition api_change_brightness :: "string \<Rightarrow> int \<Rightarrow> 'k world \<Rightarrow> 'k world" where
  "api_change_brightness deck_id amount w =
     w\<lparr>levels := (levels w)(deck_id := max 0 (min 100 (levels w deck_id + amount)))\<rparr>"

definition api_get_brightness :: "'k world \<Rightarrow> string \<Rightarrow> int" where
  "api_get_brightness w deck_id = levels w deck_id"

definition log_event :: "'k event \<Rightarrow> 'k world \<Rightarrow> 'k world" where
  "log_event e w = w\<lparr>trace := trace w @ [e]\<rparr>"

definition command_step :: "'k env \<Rightarrow> button_action \<Rightarrow> 'k world \<Rightarrow> 'k world" where
  "command_step E b w =
     (if command b \<noteq> []
      then w\<lparr>trace := attempt E (Popen (command b)) (CommandFailed (command b)) (trace w)\<rparr>
      else w)"

definition keys_step :: "'k env \<Rightarrow> button_action \<Rightarrow> 'k world \<Rightarrow> 'k world" where
  "keys_step E b w = w\<lparr>trace := run_keys E (keys b) (trace w)\<rparr>"

definition write_step :: "'k env \<Rightarrow> button_action \<Rightarrow> 'k world \<Rightarrow> 'k world" where
  "write_step E b w =
     (if write_text b \<noteq> []
      then w\<lparr>trace := attempt E (Type (write_text b)) CouldNotWrite (trace w)\<rparr>
      else w)"

text \<open>
  The three statements of the brightness step share one \<open>try\<close>: the first that raises
  ends the step with the message printed.
\<close>

definition brightness_step :: "'k env \<Rightarrow> string \<Rightarrow> button_action \<Rightarrow> 'k world \<Rightarrow> 'k world" where
  "brightness_step E deck_id b w =
     (if brightness_change b \<noteq> 0
      then (let c1 = ApiChangeBrightness deck_id (brightness_change b);
                w1 = log_event (Call c1) w
            in if raises E (trace w) c1 then log_event (Print CouldNotChangeBrightness) w1
               else (let w2 = api_change_brightness deck_id (brightness_change b) w1;
                         c2 = ApiGetBrightness deck_id;
                         w3 = log_event (Call c2) w2
                     in if raises E (trace w2) c2
                        then log_event (Print CouldNotChangeBrightness) w3
                        else (case dimmers w3 deck_id of
                                None \<Rightarrow> log_event (Print CouldNotChangeBrightness) w3
                              | Some d \<Rightarrow>
                                  (case reset (d\<lparr>brightness := api_get_brightness w3 deck_id\<rparr>) of
                                     (Inl e, d') \<Rightarrow>
                                       log_event (Print CouldNotChangeBrightness)
                                         (w3\<lparr>dimmers := (dimmers w3)(deck_id \<mapsto> d')\<rparr>)
                                   | (Inr r, d') \<Rightarrow>
                                       w3\<lparr>dimmers := (dimmers w3)(deck_id \<mapsto> d')\<rparr>))))
      else w)"

definition page_step :: "button_action \<Rightarrow> 'k world \<Rightarrow> 'k world" where
  "page_step b w =
     (if switch_page b \<noteq> 0 then set_page (target_device b) (switch_page b - 1) w else w)"

text \<open>
  An exception of the first \<open>reset()\<close>, or the missing dimmer of an unknown device,
  leaves \<open>handle_keypress\<close> as it is raised.
\<close>

definition handle_keypress ::
    "'k env \<Rightarrow> 'k world \<Rightarrow> string \<Rightarrow> int \<Rightarrow> bool \<Rightarrow> error + 'k world" where
  "handle_keypress E w deck_id key state =
     (if state
      then (case dimmers w deck_id of
              None \<Rightarrow> Inl (KeyError deck_id)
            | Some d \<Rightarrow>
                (case reset d of
                   (Inl e, d') \<Rightarrow> Inl e
                 | (Inr woke, d') \<Rightarrow>
                     (let w0 = w\<lparr>dimmers := (dimmers w)(deck_id \<mapsto> d')\<rparr>
                      in if woke then Inr w0
                         else (let page = get_page w0 deck_id;
                                   w1 = command_step E (button E deck_id page key) w0;
                                   w2 = keys_step E (button E deck_id page key) w1;
                                   w3 = write_step E (button E deck_id page key) w2;
                                   w4 = brightness_step E deck_id (button E deck_id page key) w3;
                                   w5 = page_step (button E deck_id page key) w4
                               in Inr w5))))
      else Inr w)"

text \<open>The calls of a trace, and among them the presses and the releases, in order.\<close>

fun calls :: "'k event list \<Rightarrow> 'k call list" where
  "calls [] = []"
| "calls (Call c # es) = c # calls es"
| "calls (Print r # es) = calls es"

fun presses :: "'k event list \<Rightarrow> 'k key_name list" where
  "presses [] = []"
| "presses (Call (Press k) # es) = k # presses es"
| "presses (e # es) = presses es"

fun releases :: "'k event list \<Rightarrow> 'k key_name list" where
  "releases [] = []"
| "releases (Call (Release k) # es) = k # releases es"
| "releases (e # es) = releases es"

text \<open>An environment for examples: no \<open>Key\<close> member, and every call succeeds.\<close>

definition plain_env :: "nat env" where
  "plain_env =
     \<lparr>Key = (\<lambda>n. None),
      float = (\<lambda>s. if s = ''1'' then Some (Finite 1) else if s = ''0'' then Some (Finite 0)
                    else None),
      raises = (\<lambda>tr c. False),
      button = (\<lambda>deck_id page key.
        \<lparr>command = [], keys = [], write_text = [], brightness_change = 0, switch_page = 0,
         target_device = []\<rparr>)\<rparr>"

definition example_button :: button_action where
  "example_button =
     \<lparr>command = ''xdotool key a'', keys = ''ctrl+a,delay,b'', write_text = ''hi'',
      brightness_change = 10, switch_page = 2, target_device = ''D2''\<rparr>"

text \<open>An environment for examples in which every call raises.\<close>

definition failing_env :: "nat env" where
  "failing_env =
     plain_env\<lparr>raises := (\<lambda>tr c. True), button := (\<lambda>deck_id page key. example_button)\<rparr>"

text \<open>
  Two worlds for examples: in \<open>fresh_world\<close> the dimmer of device D1 has just been
  constructed, in \<open>awake_world\<close> it has been reset once.
\<close>

definition fresh_world :: "nat world" where
  "fresh_world =
     \<lparr>trace = [], dimmers = [''D1'' \<mapsto> Dimmer 10 50], pages = (\<lambda>deck_id. 0),
      levels = (\<lambda>deck_id. 50)\<rparr>"

definition awake_world :: "nat world" where
  "awake_world =
     \<lparr>trace = [], dimmers = [''D1'' \<mapsto> snd (reset (Dimmer 10 50))], pages = (\<lambda>deck_id. 0),
      levels = (\<lambda>deck_id. 50)\<rparr>"

section \<open>Auxiliary notions for the proofs\<close>

text \<open>What one attempt appends to the trace.\<close>

definition attempted :: "'k env \<Rightarrow> 'k call \<Rightarrow> 'k report \<Rightarrow> 'k event list \<Rightarrow> 'k event list" where
  "attempted E c r tr = (if raises E tr c then [Call c, Print r] else [Call c])"

text \<open>The tokens of a section that are keys, in order.\<close>

definition key_names :: "'k key_name list \<Rightarrow> 'k key_name list" where
  "key_names ks = filter (\<lambda>k. \<not> is_delay k) ks"

text \<open>
  Two invariants of a dimmer whose normal brightness is \<open>b\<close> and whose timeout is one
  that \<open>start\<close> accepts: \<open>fresh\<close> holds from the construction until the brightness is
  first set, \<open>good\<close> from then on.
\<close>

definition good :: "int \<Rightarrow> dimmer \<Rightarrow> bool" where
  "good b d \<longleftrightarrow>
     brightness d = b \<and> 0 \<le> timeout d \<and> timeout d \<le> 2147483
     \<and> 0 \<le> dimmer_brightness d \<and> dimmer_brightness d \<le> b"

definition fresh :: "int \<Rightarrow> dimmer \<Rightarrow> bool" where
  "fresh b d \<longleftrightarrow>
     brightness d = b \<and> 0 \<le> timeout d \<and> timeout d \<le> 2147483
     \<and> dimmer_brightness d = - 1 \<and> timer d = None \<and> change_timer d = None"

section \<open>Lemmas about the dimmer\<close>

lemmas dimmer_defs = reset_def stop_def dim_def change_brightness_def timer_fires_def
  change_timer_fires_def brightness_callback_def stop_timer_def is_active_def
  new_single_shot_def start_def can_fire_def expire_def

text \<open>The intervals \<open>start\<close> accepts, and the timeouts whose milliseconds it accepts.\<close>

lemma start_accepts:
  "- 2147483648 \<le> ms \<Longrightarrow> ms \<le> 2147483647 \<Longrightarrow> start ms q = Inr (q\<lparr>active := True, interval := ms\<rparr>)"
  by (simp add: start_def)

lemma start_timeout:
  assumes "0 \<le> t" and "t \<le> 2147483"
  shows "start (t * 1000) q = Inr (q\<lparr>active := True, interval := t * 1000\<rparr>)"
proof -
  have "- 2147483648 \<le> t * 1000" "t * 1000 \<le> 2147483647" using assms by simp_all
  then show ?thesis by (rule start_accepts)
qed

text \<open>\<open>reset\<close> on a timeout that \<open>start\<close> accepts.\<close>

lemma reset_accepted:
  assumes "0 \<le> timeout d" and "timeout d \<le> 2147483"
  shows "reset d =
     (let d2 = d\<lparr>stopped := False, timer := stop_timer (timer d),
                  change_timer := stop_timer (change_timer d)\<rparr>;
          d4 = (if timeout d \<noteq> 0
                then d2\<lparr>timer := Some \<lparr>ident = timers_made d, active = True,
                                        single_shot = True, interval = timeout d * 1000\<rparr>,
                        timers_made := Suc (timers_made d)\<rparr>
                else d2)
      in if dimmer_brightness d \<noteq> brightness d
         then (Inr True, d4\<lparr>callback_log := callback_log d @ [brightness d],
                             dimmer_brightness := brightness d\<rparr>)
         else (Inr False, d4))"
proof -
  have s: "start (timeout d * 1000) q
             = Inr (q\<lparr>active := True, interval := timeout d * 1000\<rparr>)" for q
    using assms by (rule start_timeout)
  show ?thesis
    by (simp add: reset_def Let_def s new_single_shot_def brightness_callback_def)
qed

text \<open>\<open>reset\<close> on a timeout whose milliseconds do not fit: nothing is restored.\<close>

lemma reset_overflow:
  assumes "2147483 < timeout d"
  shows "fst (reset d) = Inl OverflowError"
    and "dimmer_brightness (snd (reset d)) = dimmer_brightness d"
    and "callback_log (snd (reset d)) = callback_log d"
    and "\<not> is_active (timer (snd (reset d)))"
  using assms by (simp_all add: reset_def Let_def start_def new_single_shot_def is_active_def)

text \<open>What \<open>dim\<close> does when it does something.\<close>

lemma dim_cases:
  "stopped d \<Longrightarrow> dim toggle d = (None, d)"
  "\<not> stopped d \<Longrightarrow> toggle \<Longrightarrow> dimmer_brightness d = 0 \<Longrightarrow> snd (dim toggle d) = snd (reset d)"
  "\<not> stopped d \<Longrightarrow> dimmer_brightness d \<noteq> 0 \<Longrightarrow> is_active (timer d)
     \<Longrightarrow> change_timer d = None
     \<Longrightarrow> dim toggle d = (None, change_brightness (d\<lparr>timer := stop_timer (timer d)\<rparr>))"
  "\<not> stopped d \<Longrightarrow> dimmer_brightness d \<noteq> 0 \<Longrightarrow> is_active (timer d)
     \<Longrightarrow> change_timer d \<noteq> None
     \<Longrightarrow> dim toggle d = (None, d\<lparr>timer := stop_timer (timer d)\<rparr>)"
  by (auto simp: dim_def Let_def split: prod.splits sum.splits)

lemma good_change_brightness: "good b d \<Longrightarrow> good b (change_brightness d)"
  by (auto simp: good_def change_brightness_def Let_def brightness_callback_def start_def)

lemma good_reset:
  assumes "0 \<le> b" and "brightness d = b" and "0 \<le> timeout d" and "timeout d \<le> 2147483"
  shows "good b (snd (reset d))"
  using assms by (simp add: good_def reset_accepted [OF assms(3,4)] Let_def)

lemma good_stop:
  "0 \<le> b \<Longrightarrow> brightness d = b \<Longrightarrow> 0 \<le> timeout d \<Longrightarrow> timeout d \<le> 2147483
     \<Longrightarrow> good b (stop d)"
  by (auto simp: good_def stop_def Let_def brightness_callback_def)

lemma good_dim:
  assumes b: "0 \<le> b" and g: "good b d"
  shows "good b (snd (dim toggle d))"
proof -
  have g1: "good b (d\<lparr>timer := stop_timer (timer d)\<rparr>)" using g by (simp add: good_def)
  then have g2: "good b (change_brightness (d\<lparr>timer := stop_timer (timer d)\<rparr>))"
    by (rule good_change_brightness)
  have g3: "good b (snd (reset d))" using b g good_reset [of b d] by (simp add: good_def)
  have "snd (dim toggle d) = d \<or> snd (dim toggle d) = snd (reset d)
      \<or> snd (dim toggle d) = d\<lparr>timer := stop_timer (timer d)\<rparr>
      \<or> snd (dim toggle d) = change_brightness (d\<lparr>timer := stop_timer (timer d)\<rparr>)"
    by (auto simp: dim_def Let_def split: prod.splits sum.splits)
  then show ?thesis using g g1 g2 g3 by auto
qed

lemma good_apply_op: "0 \<le> b \<Longrightarrow> good b d \<Longrightarrow> good b (apply_op op d)"
proof (cases op)
  case Reset
  assume "0 \<le> b" "good b d"
  then show ?thesis using Reset good_reset [of b d] by (simp add: good_def)
next
  case Stop
  assume "0 \<le> b" "good b d"
  then show ?thesis using Stop good_stop [of b d] by (simp add: good_def)
next
  case (Dim toggle)
  assume "0 \<le> b" "good b d"
  then show ?thesis using Dim good_dim [of b d toggle] by simp
next
  case TimerFires
  assume b: "0 \<le> b" and g: "good b d"
  show ?thesis
  proof (cases "timer d")
    case None
    then show ?thesis using TimerFires g by (simp add: timer_fires_def)
  next
    case (Some q)
    have "good b (d\<lparr>timer := Some (expire q)\<rparr>)" using g by (simp add: good_def)
    then have "good b (change_brightness (d\<lparr>timer := Some (expire q)\<rparr>))"
      by (rule good_change_brightness)
    then show ?thesis using TimerFires Some g by (simp add: timer_fires_def)
  qed
next
  case ChangeTimerFires
  assume b: "0 \<le> b" and g: "good b d"
  show ?thesis
  proof (cases "change_timer d")
    case None
    then show ?thesis using ChangeTimerFires g by (simp add: change_timer_fires_def)
  next
    case (Some q)
    have "good b (d\<lparr>change_timer := Some (expire q)\<rparr>)" using g by (simp add: good_def)
    then have "good b (change_brightness (d\<lparr>change_timer := Some (expire q)\<rparr>))"
      by (rule good_change_brightness)
    then show ?thesis using ChangeTimerFires Some g by (simp add: change_timer_fires_def)
  qed
qed

lemma good_run: "0 \<le> b \<Longrightarrow> good b d \<Longrightarrow> good b (run ops d)"
  by (induction ops arbitrary: d) (simp_all add: good_apply_op)

lemma fresh_apply_op:
  assumes b: "0 \<le> b" and f: "fresh b d"
  shows "if sets_brightness op then good b (apply_op op d) else fresh b (apply_op op d)"
proof (cases op)
  case Reset
  then show ?thesis using b f good_reset [of b d] by (simp add: fresh_def)
next
  case Stop
  then show ?thesis using b f good_stop [of b d] by (simp add: fresh_def)
next
  case (Dim toggle)
  have "dim toggle d = (None, d)"
    using f by (simp add: fresh_def dim_def is_active_def)
  then show ?thesis using Dim f by simp
next
  case TimerFires
  then show ?thesis using f by (simp add: fresh_def timer_fires_def)
next
  case ChangeTimerFires
  then show ?thesis using f by (simp add: fresh_def change_timer_fires_def)
qed

lemma fresh_run:
  "0 \<le> b \<Longrightarrow> fresh b d \<Longrightarrow>
     (if \<exists>op \<in> set ops. sets_brightness op then good b (run ops d) else fresh b (run ops d))"
proof (induction ops arbitrary: d)
  case Nil
  then show ?case by simp
next
  case (Cons op ops)
  show ?case
  proof (cases "sets_brightness op")
    case True
    then have "good b (apply_op op d)" using fresh_apply_op [OF Cons.prems, of op] by simp
    then have "good b (run ops (apply_op op d))" using Cons.prems(1) by (simp add: good_run)
    then show ?thesis using True by simp
  next
    case False
    then have "fresh b (apply_op op d)" using fresh_apply_op [OF Cons.prems, of op] by simp
    then show ?thesis using Cons.IH [OF Cons.prems(1)] False by simp
  qed
qed

section \<open>Lemmas about the macro\<close>

subsection \<open>Strings\<close>

lemma lower_char_idem: "lower_char (lower_char c) = lower_char c"
  by (simp add: lower_char_def)

lemma lower_idem: "lower (lower s) = lower s"
  by (simp add: lower_def lower_char_idem)

lemma startswith_lower:
  assumes "startswith s ''delay''"
  shows "startswith (lower s) ''delay''"
proof -
  from assms have t: "take (length ''delay'') s = ''delay''"
    unfolding startswith_def .
  have "take (length ''delay'') (lower s) = lower (take (length ''delay'') s)"
    by (simp only: lower_def take_map)
  also have "\<dots> = lower ''delay''" by (simp only: t)
  also have "\<dots> = ''delay''" by (simp add: lower_def lower_char_def)
  finally show ?thesis unfolding startswith_def .
qed

subsection \<open>Projections of a trace\<close>

lemma calls_append: "calls (xs @ ys) = calls xs @ calls ys"
  by (induction xs rule: calls.induct) simp_all

lemma presses_append: "presses (xs @ ys) = presses xs @ presses ys"
  by (induction xs rule: presses.induct) simp_all

lemma releases_append: "releases (xs @ ys) = releases xs @ releases ys"
  by (induction xs rule: releases.induct) simp_all

lemma attempt_append: "attempt E c r tr = tr @ attempted E c r tr"
  by (simp add: attempt_def attempted_def)

lemma calls_attempted: "calls (attempted E c r tr) = [c]"
  by (simp add: attempted_def)

lemma presses_attempted:
  "presses (attempted E c r tr) = (case c of Press k \<Rightarrow> [k] | _ \<Rightarrow> [])"
  by (cases c) (simp_all add: attempted_def)

lemma releases_attempted:
  "releases (attempted E c r tr) = (case c of Release k \<Rightarrow> [k] | _ \<Rightarrow> [])"
  by (cases c) (simp_all add: attempted_def)

lemma presses_printed: "presses (snd (sleep_time E s)) = []"
  by (simp add: sleep_time_def Let_def split: option.splits)

lemma releases_printed: "releases (snd (sleep_time E s)) = []"
  by (simp add: sleep_time_def Let_def split: option.splits)

lemma calls_printed: "calls (snd (sleep_time E s)) = []"
  by (simp add: sleep_time_def Let_def split: option.splits)

subsection \<open>One token\<close>

lemma press_step_suffix:
  "\<exists>p. press_step E k tr = tr @ p \<and> presses p = key_names [k] \<and> releases p = []"
proof (cases "is_delay k")
  case False
  then show ?thesis
    by (simp add: press_step_def attempt_append presses_attempted releases_attempted
        key_names_def)
next
  case True
  then obtain s where k: "k = Str s" by (cases k) simp_all
  show ?thesis
  proof (cases "truthy (fst (sleep_time E s))")
    case True
    have "press_step E k tr = tr @ (snd (sleep_time E s)
            @ attempted E (Sleep (fst (sleep_time E s))) (CouldNotSleep (fst (sleep_time E s)))
                (tr @ snd (sleep_time E s)))"
      using k \<open>is_delay k\<close> True
      by (simp add: press_step_def delay_step_def Let_def split_def attempt_append)
    then show ?thesis using \<open>is_delay k\<close>
      by (simp add: presses_append releases_append presses_printed releases_printed
          presses_attempted releases_attempted key_names_def)
  next
    case False
    have "press_step E k tr = tr @ snd (sleep_time E s)"
      using k \<open>is_delay k\<close> False
      by (simp add: press_step_def delay_step_def Let_def split_def)
    then show ?thesis using \<open>is_delay k\<close>
      by (simp add: presses_printed releases_printed key_names_def)
  qed
qed

lemma release_step_suffix:
  "\<exists>r. release_step E k tr = tr @ r \<and> releases r = key_names [k] \<and> presses r = []"
  by (cases "is_delay k")
     (simp_all add: release_step_def attempt_append presses_attempted releases_attempted
        key_names_def)

lemma key_names_Cons: "key_names (k # ks) = key_names [k] @ key_names ks"
  by (simp add: key_names_def)

lemma press_all_suffix:
  "\<exists>p. press_all E ks tr = tr @ p \<and> presses p = key_names ks \<and> releases p = []"
proof (induction ks arbitrary: tr)
  case Nil
  then show ?case by (simp add: key_names_def)
next
  case (Cons k ks)
  obtain p where p: "press_step E k tr = tr @ p" "presses p = key_names [k]" "releases p = []"
    using press_step_suffix by blast
  obtain q where q: "press_all E ks (tr @ p) = (tr @ p) @ q" "presses q = key_names ks"
      "releases q = []"
    using Cons.IH by blast
  have "press_all E (k # ks) tr = tr @ (p @ q)" using p(1) q(1) by simp
  moreover have "presses (p @ q) = key_names (k # ks)"
    using p(2) q(2) key_names_Cons [of k ks] by (simp add: presses_append)
  moreover have "releases (p @ q) = []" using p(3) q(3) by (simp add: releases_append)
  ultimately show ?case by blast
qed

lemma release_all_suffix:
  "\<exists>r. release_all E ks tr = tr @ r \<and> releases r = key_names ks \<and> presses r = []"
proof (induction ks arbitrary: tr)
  case Nil
  then show ?case by (simp add: key_names_def)
next
  case (Cons k ks)
  obtain p where p: "release_step E k tr = tr @ p" "releases p = key_names [k]" "presses p = []"
    using release_step_suffix by blast
  obtain q where q: "release_all E ks (tr @ p) = (tr @ p) @ q" "releases q = key_names ks"
      "presses q = []"
    using Cons.IH by blast
  have "release_all E (k # ks) tr = tr @ (p @ q)" using p(1) q(1) by simp
  moreover have "releases (p @ q) = key_names (k # ks)"
    using p(2) q(2) key_names_Cons [of k ks] by (simp add: releases_append)
  moreover have "presses (p @ q) = []" using p(3) q(3) by (simp add: presses_append)
  ultimately show ?case by blast
qed

lemma run_section_suffix:
  "\<exists>p r. run_section E s tr = tr @ p @ r
     \<and> presses p = key_names (section_keys E s) \<and> releases p = []
     \<and> releases r = key_names (section_keys E s) \<and> presses r = []"
proof -
  obtain p where p: "press_all E (section_keys E s) tr = tr @ p"
      "presses p = key_names (section_keys E s)" "releases p = []"
    using press_all_suffix by blast
  obtain r where r: "release_all E (section_keys E s) (tr @ p) = (tr @ p) @ r"
      "releases r = key_names (section_keys E s)" "presses r = []"
    using release_all_suffix by blast
  have "run_section E s tr = tr @ p @ r" using p(1) r(1) by (simp add: run_section_def)
  then show ?thesis using p(2,3) r(2,3) by blast
qed

lemma run_sections_presses_releases:
  "presses (run_sections E ss tr) = presses tr @ concat (map (\<lambda>s. key_names (section_keys E s)) ss)
   \<and> releases (run_sections E ss tr)
       = releases tr @ concat (map (\<lambda>s. key_names (section_keys E s)) ss)"
proof (induction ss arbitrary: tr)
  case Nil
  then show ?case by simp
next
  case (Cons s ss)
  obtain p r where pr: "run_section E s tr = tr @ p @ r"
      "presses p = key_names (section_keys E s)" "releases p = []"
      "releases r = key_names (section_keys E s)" "presses r = []"
    using run_section_suffix by blast
  show ?case using Cons.IH [of "tr @ p @ r"] pr
    by (simp add: presses_append releases_append)
qed

subsection \<open>Calls do not depend on what raises\<close>

lemma sleep_time_cong:
  "float (F :: 'k env) = float (E :: 'k env) \<Longrightarrow> sleep_time F s = sleep_time E s"
  by (simp add: sleep_time_def Let_def)

lemma press_step_calls:
  "\<exists>cs. \<forall>(F :: 'k env) tr. float F = float (E :: 'k env)
      \<longrightarrow> calls (press_step F k tr) = calls tr @ cs"
proof (cases "is_delay k")
  case False
  then show ?thesis
    by (simp add: press_step_def attempt_append calls_append calls_attempted)
next
  case True
  then obtain s where k: "k = Str s" by (cases k) simp_all
  let ?cs = "if truthy (fst (sleep_time E s)) then [Sleep (fst (sleep_time E s))] else []"
  have "calls (press_step F k tr) = calls tr @ ?cs" if f: "float F = float E"
    for F :: "'k env" and tr
  proof -
    have st: "sleep_time F s = sleep_time E s"
      using f by (simp add: sleep_time_def Let_def)
    have "press_step F k tr = delay_step F s tr"
      using k True by (simp add: press_step_def)
    then show ?thesis
      by (simp add: delay_step_def Let_def split_def attempt_append calls_append
          calls_attempted calls_printed st)
  qed
  then show ?thesis by blast
qed

lemma release_step_calls:
  "\<exists>cs. \<forall>F tr. calls (release_step (F :: 'k env) k tr) = calls tr @ cs"
  by (cases "is_delay k")
     (simp_all add: release_step_def attempt_append calls_append calls_attempted)

lemma press_all_calls:
  "\<exists>cs. \<forall>(F :: 'k env) tr. float F = float (E :: 'k env)
      \<longrightarrow> calls (press_all F ks tr) = calls tr @ cs"
proof (induction ks)
  case Nil
  then show ?case by simp
next
  case (Cons k ks)
  obtain c1 where c1:
    "\<And>(F :: 'k env) tr. float F = float E \<Longrightarrow> calls (press_step F k tr) = calls tr @ c1"
    using press_step_calls [of E k] by blast
  obtain cs where cs:
    "\<And>(F :: 'k env) tr. float F = float E \<Longrightarrow> calls (press_all F ks tr) = calls tr @ cs"
    using Cons.IH by blast
  have "calls (press_all F (k # ks) tr) = calls tr @ (c1 @ cs)"
    if f: "float F = float E" for F :: "'k env" and tr
    by (simp only: press_all.simps cs [OF f] c1 [OF f] append_assoc)
  then show ?case by blast
qed

lemma release_all_calls:
  "\<exists>cs. \<forall>(F :: 'k env) tr. calls (release_all F ks tr) = calls tr @ cs"
proof (induction ks)
  case Nil
  then show ?case by simp
next
  case (Cons k ks)
  obtain c1 where c1: "\<And>(F :: 'k env) tr. calls (release_step F k tr) = calls tr @ c1"
    using release_step_calls [of k] by blast
  obtain cs where cs: "\<And>(F :: 'k env) tr. calls (release_all F ks tr) = calls tr @ cs"
    using Cons.IH by blast
  have "calls (release_all F (k # ks) tr) = calls tr @ (c1 @ cs)"
    for F :: "'k env" and tr
    by (simp only: release_all.simps cs c1 append_assoc)
  then show ?case by blast
qed

lemma section_keys_cong:
  assumes "Key (F :: 'k env) = Key (E :: 'k env)"
  shows "section_keys F s = section_keys E s"
proof -
  have "translate F = translate E"
    by (rule ext) (simp add: translate_def assms)
  then show ?thesis by (simp add: section_keys_def)
qed

lemma run_section_calls:
  "\<exists>cs. \<forall>(F :: 'k env) tr. float F = float (E :: 'k env) \<and> Key F = Key E
      \<longrightarrow> calls (run_section F s tr) = calls tr @ cs"
proof -
  obtain c1 where c1: "\<And>(F :: 'k env) tr. float F = float E
      \<Longrightarrow> calls (press_all F (section_keys E s) tr) = calls tr @ c1"
    using press_all_calls [of E "section_keys E s"] by blast
  obtain c2 where c2: "\<And>(F :: 'k env) tr. calls (release_all F (section_keys E s) tr) = calls tr @ c2"
    using release_all_calls [of "section_keys E s"] by blast
  have "calls (run_section F s tr) = calls tr @ (c1 @ c2)"
    if f: "float F = float E" and k: "Key F = Key E" for F :: "'k env" and tr
  proof -
    have sk: "section_keys F s = section_keys E s"
      using k by (rule section_keys_cong)
    have "calls (run_section F s tr)
            = calls (press_all F (section_keys E s) tr) @ c2"
      by (simp only: run_section_def Let_def sk c2)
    also have "\<dots> = calls tr @ (c1 @ c2)"
      by (simp only: c1 [OF f] append_assoc)
    finally show ?thesis .
  qed
  then show ?thesis by blast
qed

lemma run_sections_calls:
  "\<exists>cs. \<forall>(F :: 'k env) tr. float F = float (E :: 'k env) \<and> Key F = Key E
      \<longrightarrow> calls (run_sections F ss tr) = calls tr @ cs"
proof (induction ss)
  case Nil
  then show ?case by simp
next
  case (Cons s ss)
  obtain c1 where c1: "\<And>(F :: 'k env) tr. float F = float E \<Longrightarrow> Key F = Key E
      \<Longrightarrow> calls (run_section F s tr) = calls tr @ c1"
    using run_section_calls [of E s] by blast
  obtain cs where cs: "\<And>(F :: 'k env) tr. float F = float E \<Longrightarrow> Key F = Key E
      \<Longrightarrow> calls (run_sections F ss tr) = calls tr @ cs"
    using Cons.IH by blast
  have "calls (run_sections F (s # ss) tr) = calls tr @ (c1 @ cs)"
    if f: "float F = float E" and k: "Key F = Key E" for F :: "'k env" and tr
    by (simp only: run_sections.simps cs [OF f k] c1 [OF f k] append_assoc)
  then show ?case by blast
qed

lemma run_keys_calls:
  "calls (run_keys (E :: 'k env) ks tr)
     = calls tr @ calls (run_keys (E\<lparr>raises := \<lambda>tr c. False\<rparr>) ks [])"
proof (cases "ks = []")
  case True
  then show ?thesis by (simp add: run_keys_def)
next
  case False
  let ?ss = "split_on CHR '','' (remove_spaces (strip ks))"
  let ?Q = "E\<lparr>raises := \<lambda>tr c. False\<rparr>"
  obtain cs where cs: "\<And>(F :: 'k env) tr. float F = float E \<Longrightarrow> Key F = Key E
      \<Longrightarrow> calls (run_sections F ?ss tr) = calls tr @ cs"
    using run_sections_calls [of E ?ss] by blast
  have e: "calls (run_sections E ?ss tr) = calls tr @ cs"
    by (rule cs) simp_all
  have q: "calls (run_sections ?Q ?ss []) = calls [] @ cs"
    by (rule cs) simp_all
  show ?thesis using False e q by (simp add: run_keys_def)
qed

subsection \<open>The calls of a section\<close>

lemma press_step_calls_from_empty:
  "calls (press_step (E :: 'k env) k tr) = calls tr @ calls (press_step E k [])"
proof -
  obtain cs where cs:
    "\<And>(F :: 'k env) tr. float F = float E \<Longrightarrow> calls (press_step F k tr) = calls tr @ cs"
    using press_step_calls [of E k] by blast
  have "calls (press_step E k []) = cs" using cs [of E "[]"] by simp
  then show ?thesis using cs [of E tr] by simp
qed

lemma press_all_calls_by_token:
  "calls (press_all (E :: 'k env) ks tr)
     = calls tr @ concat (map (\<lambda>k. calls (press_step E k [])) ks)"
proof (induction ks arbitrary: tr)
  case Nil
  then show ?case by simp
next
  case (Cons k ks)
  have "calls (press_all E (k # ks) tr)
          = calls (press_step E k tr) @ concat (map (\<lambda>k. calls (press_step E k [])) ks)"
    using Cons.IH [of "press_step E k tr"] by simp
  also have "calls (press_step E k tr) = calls tr @ calls (press_step E k [])"
    by (rule press_step_calls_from_empty)
  finally show ?case by simp
qed

lemma release_step_calls_explicit:
  "calls (release_step E t tr) = calls tr @ (if is_delay t then [] else [Release t])"
  by (simp add: release_step_def attempt_append calls_append calls_attempted)

lemma release_all_calls_explicit:
  "calls (release_all E ks tr) = calls tr @ map Release (key_names ks)"
proof (induction ks arbitrary: tr)
  case Nil
  then show ?case by (simp add: key_names_def)
next
  case (Cons k ks)
  show ?case
    using Cons.IH [of "release_step E k tr"] release_step_calls_explicit [of E k tr]
    by (simp add: key_names_def)
qed

lemma delay_step_calls_explicit:
  "calls (delay_step E s tr)
     = calls tr @ (if truthy (fst (sleep_time E s)) then [Sleep (fst (sleep_time E s))] else [])"
  by (simp add: delay_step_def Let_def split_def attempt_append calls_append calls_attempted
      calls_printed)

subsection \<open>The steps of the dispatcher\<close>

lemma command_step_calls:
  "calls (trace (command_step E b w))
     = calls (trace w) @ (if command b \<noteq> [] then [Popen (command b)] else [])"
  by (simp add: command_step_def attempt_append calls_append calls_attempted)

lemma keys_step_calls:
  "calls (trace (keys_step (E :: 'k env) b w))
     = calls (trace w) @ calls (run_keys (E\<lparr>raises := \<lambda>tr c. False\<rparr>) (keys b) [])"
  using run_keys_calls [of E "keys b" "trace w"] by (simp add: keys_step_def)

lemma write_step_calls:
  "calls (trace (write_step E b w))
     = calls (trace w) @ (if write_text b \<noteq> [] then [Type (write_text b)] else [])"
  by (simp add: write_step_def attempt_append calls_append calls_attempted)

lemma brightness_step_calls:
  "\<exists>rest. calls (trace (brightness_step E deck_id b w))
     = calls (trace w)
       @ (if brightness_change b \<noteq> 0
          then ApiChangeBrightness deck_id (brightness_change b) # rest else [])
     \<and> set rest \<subseteq> {ApiGetBrightness deck_id}"
proof (cases "brightness_change b = 0")
  case True
  then show ?thesis by (intro exI [of _ "[]"]) (simp add: brightness_step_def)
next
  case False
  let ?c1 = "ApiChangeBrightness deck_id (brightness_change b)"
  show ?thesis
  proof (cases "raises E (trace w) ?c1")
    case True
    then have "calls (trace (brightness_step E deck_id b w)) = calls (trace w) @ ?c1 # []"
      using False by (simp add: brightness_step_def Let_def log_event_def calls_append)
    then show ?thesis using False by auto
  next
    case nr: False
    have "calls (trace (brightness_step E deck_id b w))
            = calls (trace w) @ ?c1 # [ApiGetBrightness deck_id]"
      using False nr
      by (simp add: brightness_step_def Let_def log_event_def calls_append
          api_change_brightness_def split: option.splits prod.splits sum.splits)
    then show ?thesis using False by auto
  qed
qed

lemma steps_keep_pages:
  "pages (command_step E b w) = pages w"
  "pages (keys_step E b w) = pages w"
  "pages (write_step E b w) = pages w"
  "pages (brightness_step E deck_id b w) = pages w"
  by (simp_all add: command_step_def keys_step_def write_step_def brightness_step_def
      Let_def log_event_def api_change_brightness_def
      split: option.splits prod.splits sum.splits)

lemma steps_keep_dimmers:
  "dimmers (command_step E b w) = dimmers w"
  "dimmers (keys_step E b w) = dimmers w"
  "dimmers (write_step E b w) = dimmers w"
  by (simp_all add: command_step_def keys_step_def write_step_def)

lemma page_step_pages:
  "pages (page_step b w)
     = (if switch_page b \<noteq> 0 then (pages w)(target_device b := switch_page b - 1) else pages w)"
  by (simp add: page_step_def set_page_def)

lemma page_step_keeps:
  "trace (page_step b w) = trace w" "dimmers (page_step b w) = dimmers w"
  by (simp_all add: page_step_def set_page_def)

lemma handle_keypress_not_woken:
  assumes "dimmers w deck_id = Some d" and "fst (reset d) = Inr False"
  shows "handle_keypress E w deck_id key True
     = Inr (page_step (button E deck_id (pages w deck_id) key)
         (brightness_step E deck_id (button E deck_id (pages w deck_id) key)
           (write_step E (button E deck_id (pages w deck_id) key)
             (keys_step E (button E deck_id (pages w deck_id) key)
               (command_step E (button E deck_id (pages w deck_id) key)
                 (w\<lparr>dimmers := (dimmers w)(deck_id \<mapsto> snd (reset d))\<rparr>))))))"
proof -
  obtain d' where r: "reset d = (Inr False, d')"
    using assms(2) by (cases "reset d") simp
  show ?thesis using assms(1) r
    by (simp add: handle_keypress_def Let_def get_page_def)
qed

lemma brightness_step_failure:
  assumes "brightness_change b \<noteq> 0"
    and "raises E (trace w) (ApiChangeBrightness deck_id (brightness_change b))
         \<or> raises E (trace w @ [Call (ApiChangeBrightness deck_id (brightness_change b))])
              (ApiGetBrightness deck_id)"
  shows "dimmers (brightness_step E deck_id b w) = dimmers w"
  using assms
  by (auto simp: brightness_step_def Let_def log_event_def api_change_brightness_def)

text \<open>A further \<open>reset\<close> with a timeout makes a new timer, so it can be told from none.\<close>

lemma reset_counts_timer:
  "timeout d \<noteq> 0 \<Longrightarrow> timers_made (snd (reset d)) = Suc (timers_made d)"
  "timeout (snd (reset d)) = timeout d"
  by (simp_all add: reset_def Let_def start_def brightness_callback_def split: sum.splits)

lemma reset_twice_differs:
  assumes "timeout d \<noteq> 0"
  shows "snd (reset (snd (reset d))) \<noteq> snd (reset d)"
proof
  assume e: "snd (reset (snd (reset d))) = snd (reset d)"
  have "timeout (snd (reset d)) \<noteq> 0" using assms by (simp add: reset_counts_timer(2))
  then have "timers_made (snd (reset (snd (reset d)))) = Suc (timers_made (snd (reset d)))"
    by (rule reset_counts_timer(1))
  then show False using e by simp
qed

section \<open>The claims\<close>

text \<open>
  C1. A key press whose \<open>reset()\<close> returns true wakes the display and does nothing else:
  the dispatcher returns with the trace of calls, the pages and the brightness levels as
  they were; only the dimmer of the device has changed, by that \<open>reset()\<close>.
\<close>

theorem wake_consumes_keypress:
  assumes "dimmers w deck_id = Some d" and "fst (reset d) = Inr True"
  shows "\<exists>w'. handle_keypress E w deck_id key True = Inr w'
           \<and> trace w' = trace w \<and> pages w' = pages w \<and> levels w' = levels w
           \<and> dimmers w' = (dimmers w)(deck_id \<mapsto> snd (reset d))"
proof -
  obtain d' where r: "reset d = (Inr True, d')"
    using assms(2) by (cases "reset d") simp
  show ?thesis using assms(1) r
    by (simp add: handle_keypress_def Let_def)
qed

theorem wake_consumes_keypress_witness:
  "dimmers fresh_world ''D1'' = Some (Dimmer 10 50) \<and> fst (reset (Dimmer 10 50)) = Inr True
   \<and> (\<exists>w'. handle_keypress failing_env fresh_world ''D1'' 0 True = Inr w'
          \<and> trace w' = [] \<and> pages w' ''D2'' = 0 \<and> levels w' ''D1'' = 50)"
proof -
  have h1: "dimmers fresh_world ''D1'' = Some (Dimmer 10 50)"
    by (simp add: fresh_world_def)
  have h2: "fst (reset (Dimmer 10 50)) = Inr True"
    by (simp add: dimmer_defs Dimmer_def Let_def)
  show ?thesis
    using h1 h2 wake_consumes_keypress [OF h1 h2, of failing_env 0]
    by (auto simp: fresh_world_def)
qed



text \<open>
  C3. The dimmer of a device with timeout 10 and brightness 50 is reset, its idle timer
  fires (one ramp tick, to 49), and it is reset again, which cancels the ramp. Now the
  idle timer is pending, no ramp is running and the brightness is 50; yet \<open>dim()\<close> only
  stops the idle timer and starts no ramp, since the cancelled ramp timer is still in
  \<open>__change_timer\<close>, which the code compares with \<open>None\<close>.
\<close>

theorem dim_after_cancelled_ramp:
  "is_active (timer (run [Reset, TimerFires, Reset] (Dimmer 10 50)))
   \<and> \<not> is_active (change_timer (run [Reset, TimerFires, Reset] (Dimmer 10 50)))
   \<and> dimmer_brightness (run [Reset, TimerFires, Reset] (Dimmer 10 50)) = 50
   \<and> \<not> stopped (run [Reset, TimerFires, Reset] (Dimmer 10 50))
   \<and> dim False (run [Reset, TimerFires, Reset] (Dimmer 10 50))
       = (None, (run [Reset, TimerFires, Reset] (Dimmer 10 50))
           \<lparr>timer := Some \<lparr>ident = 2, active = False, single_shot = True,
                            interval = 10000\<rparr>\<rparr>)
   \<and> dim True (run [Reset, TimerFires, Reset] (Dimmer 10 50))
       = dim False (run [Reset, TimerFires, Reset] (Dimmer 10 50))
   \<and> \<not> is_active (change_timer (snd (dim False (run [Reset, TimerFires, Reset] (Dimmer 10 50)))))
   \<and> dimmer_brightness (snd (dim False (run [Reset, TimerFires, Reset] (Dimmer 10 50)))) = 50
   \<and> callback_log (snd (dim False (run [Reset, TimerFires, Reset] (Dimmer 10 50))))
       = [50, 49, 50]
   \<and> timers_made (snd (dim False (run [Reset, TimerFires, Reset] (Dimmer 10 50))))
       = timers_made (run [Reset, TimerFires, Reset] (Dimmer 10 50))"
  by (simp add: dimmer_defs Dimmer_def Let_def)

text \<open>
  C4, as amended. Delays are recognised token by token, after the section has been split
  at "+": a token becomes a delay exactly when the token itself starts with "delay",
  whatever the case of its letters, and is not the name of a \<open>Key\<close> member. In the press
  phase the tokens are taken in order: a key is pressed, a delay sleeps for its sleep time
  if that is not zero, so a sleep happens where its token stands, between the presses of
  its neighbours. A delay token adds no press and no release. The release phase releases
  the keys in order and skips the delays.
\<close>

theorem delay_is_per_token:
  "(is_delay (translate E (replace_special_keys k))
      \<longleftrightarrow> startswith (lower k) ''delay'' \<and> Key E (lower k) = None)
   \<and> section_keys E section
       = map (\<lambda>k. translate E (replace_special_keys k)) (split_on CHR ''+'' section)
   \<and> (is_delay t \<longrightarrow> presses (press_step E t tr) = presses tr
         \<and> releases (press_step E t tr) = releases tr \<and> release_step E t tr = tr)
   \<and> (is_delay (Str s) \<longrightarrow>
         calls (press_step E (Str s) tr)
           = calls tr @ (if truthy (fst (sleep_time E s))
                         then [Sleep (fst (sleep_time E s))] else []))
   \<and> (\<not> is_delay t \<longrightarrow> calls (press_step E t tr) = calls tr @ [Press t])
   \<and> calls (release_step E t tr) = calls tr @ (if is_delay t then [] else [Release t])
   \<and> calls (run_section E section tr)
       = calls tr
         @ concat (map (\<lambda>k. calls (press_step E k [])) (section_keys E section))
         @ map Release (key_names (section_keys E section))"
proof -
  have a: "is_delay (translate E (replace_special_keys k))
      \<longleftrightarrow> startswith (lower k) ''delay'' \<and> Key E (lower k) = None"
  proof (cases "startswith (lower k) ''delay''")
    case True
    then have "lower k \<noteq> ''plus''" "lower k \<noteq> ''comma''"
      by (auto simp: startswith_def)
    then have "replace_special_keys k = lower k"
      using True by (simp add: replace_special_keys_def)
    then show ?thesis using True
      by (simp add: translate_def lower_idem split: option.splits)
  next
    case False
    then have nk: "\<not> startswith k ''delay''" using startswith_lower by blast
    have "\<not> is_delay (translate E (replace_special_keys k))"
      using False nk
      by (auto simp: replace_special_keys_def translate_def startswith_def
          split: option.splits)
    then show ?thesis using False by simp
  qed
  have b: "section_keys E section
       = map (\<lambda>k. translate E (replace_special_keys k)) (split_on CHR ''+'' section)"
    by (simp add: section_keys_def)
  have c: "is_delay t \<longrightarrow> presses (press_step E t tr) = presses tr
         \<and> releases (press_step E t tr) = releases tr \<and> release_step E t tr = tr"
  proof
    assume t: "is_delay t"
    obtain p where p: "press_step E t tr = tr @ p" "presses p = key_names [t]"
        "releases p = []"
      using press_step_suffix by blast
    show "presses (press_step E t tr) = presses tr
         \<and> releases (press_step E t tr) = releases tr \<and> release_step E t tr = tr"
      using t p by (simp add: presses_append releases_append key_names_def release_step_def)
  qed
  have d: "is_delay (Str s) \<longrightarrow>
         calls (press_step E (Str s) tr)
           = calls tr @ (if truthy (fst (sleep_time E s))
                         then [Sleep (fst (sleep_time E s))] else [])"
    using delay_step_calls_explicit [of E s tr] by (simp add: press_step_def)
  have e: "\<not> is_delay t \<longrightarrow> calls (press_step E t tr) = calls tr @ [Press t]"
    by (simp add: press_step_def attempt_append calls_append calls_attempted)
  have f: "calls (release_step E t tr) = calls tr @ (if is_delay t then [] else [Release t])"
    by (rule release_step_calls_explicit)
  have g: "calls (run_section E section tr)
       = calls tr
         @ concat (map (\<lambda>k. calls (press_step E k [])) (section_keys E section))
         @ map Release (key_names (section_keys E section))"
    by (simp add: run_section_def Let_def release_all_calls_explicit
        press_all_calls_by_token)
  show ?thesis using a b c d e f g by blast
qed

theorem delay_is_per_token_witness:
  "is_delay (translate plain_env (replace_special_keys ''DeLay1''))
   \<and> section_keys plain_env ''a+DeLay1+b'' = [Str ''a'', Str ''delay1'', Str ''b'']
   \<and> is_delay (Str ''delay1'' :: nat key_name)
   \<and> \<not> is_delay (Str ''a'' :: nat key_name)
   \<and> release_step failing_env (Str ''delay1'') [] = []
   \<and> calls (press_step failing_env (Str ''delay1'') []) = [Sleep (Finite 1)]
   \<and> calls (run_section failing_env ''a+DeLay1+b'' [])
       = [Press (Str ''a''), Sleep (Finite 1), Press (Str ''b''),
          Release (Str ''a''), Release (Str ''b'')]"
proof -
  have h1: "is_delay (Str ''delay1'' :: nat key_name)" by (simp add: startswith_def)
  have h2: "\<not> is_delay (Str ''a'' :: nat key_name)" by (simp add: startswith_def)
  have h3: "\<not> is_delay (Str ''b'' :: nat key_name)" by (simp add: startswith_def)
  have st: "sleep_time failing_env ''delay1'' = (Finite 1, [])"
    by (simp add: sleep_time_def failing_env_def plain_env_def)
  have sk: "section_keys failing_env ''a+DeLay1+b'' = [Str ''a'', Str ''delay1'', Str ''b'']"
    by (simp add: failing_env_def plain_env_def lower_def lower_char_def startswith_def
        translate_def replace_special_keys_def section_keys_def)
  have pa: "calls (press_step failing_env (Str ''a'') []) = [Press (Str ''a'')]"
    using h2 delay_is_per_token [of failing_env "''a''" "''a''" "Str ''a''" "[]" "''a''"]
    by simp
  have pb: "calls (press_step failing_env (Str ''b'') []) = [Press (Str ''b'')]"
    using h3 delay_is_per_token [of failing_env "''b''" "''b''" "Str ''b''" "[]" "''b''"]
    by simp
  have pd: "calls (press_step failing_env (Str ''delay1'') []) = [Sleep (Finite 1)]"
    using h1 st
      delay_is_per_token [of failing_env "''a''" "''a''" "Str ''delay1''" "[]" "''delay1''"]
    by (simp add: truthy_def)
  have rs: "release_step failing_env (Str ''delay1'') [] = []"
    using h1
      delay_is_per_token [of failing_env "''a''" "''a''" "Str ''delay1''" "[]" "''delay1''"]
    by simp
  have tk: "is_delay (translate plain_env (replace_special_keys ''DeLay1''))"
    using delay_is_per_token [of plain_env "''DeLay1''" "''a''" "Str ''a''" "[]" "''a''"]
    by (simp add: plain_env_def lower_def lower_char_def startswith_def)
  have sp: "section_keys plain_env ''a+DeLay1+b'' = [Str ''a'', Str ''delay1'', Str ''b'']"
    by (simp add: plain_env_def lower_def lower_char_def startswith_def
        translate_def replace_special_keys_def section_keys_def)
  have g: "calls (run_section failing_env ''a+DeLay1+b'' [])
       = calls []
         @ concat (map (\<lambda>k. calls (press_step failing_env k []))
                     (section_keys failing_env ''a+DeLay1+b''))
         @ map Release (key_names (section_keys failing_env ''a+DeLay1+b''))"
    using delay_is_per_token [of failing_env "''a''" "''a+DeLay1+b''" "Str ''a''" "[]" "''a''"]
    by blast
  have rn: "calls (run_section failing_env ''a+DeLay1+b'' [])
       = [Press (Str ''a''), Sleep (Finite 1), Press (Str ''b''),
          Release (Str ''a''), Release (Str ''b'')]"
    by (simp add: g sk pa pb pd key_names_def startswith_def)
  show ?thesis using h1 h2 rs pd tk sp rn by blast
qed

text \<open>
  C4 as stated fails twice. The segment "delay1+a" starts with "delay" and is no single
  delay: it is a delay followed by the key a. The segment "a+delay1+b" does not start
  with "delay", and the sleep happens between the presses of a and of b.
\<close>

theorem delay_inside_key_section_counterexample:
  "startswith (lower ''delay1+a'') ''delay''
   \<and> section_keys plain_env ''delay1+a'' = [Str ''delay1'', Str ''a'']
   \<and> \<not> startswith (lower ''a+delay1+b'') ''delay''
   \<and> run_section plain_env ''a+delay1+b'' []
       = [Call (Press (Str ''a'')), Call (Sleep (Finite 1)), Call (Press (Str ''b'')),
          Call (Release (Str ''a'')), Call (Release (Str ''b''))]"
  by (simp add: plain_env_def lower_def lower_char_def startswith_def translate_def
      replace_special_keys_def section_keys_def run_section_def press_step_def
      release_step_def delay_step_def sleep_time_def attempt_def truthy_def Let_def)

text \<open>
  C5. Whatever raises, a section's run appends a press phase and then a release phase to
  the trace: the press phase presses each key of the section once, in token order, and
  releases nothing; the release phase releases the same keys in the same order and
  presses nothing. Over a whole macro the presses and the releases are those of all its
  sections, in order.
\<close>

theorem press_release_balance:
  "(\<exists>p r. run_section E s tr = tr @ p @ r
       \<and> presses p = key_names (section_keys E s) \<and> releases p = []
       \<and> releases r = key_names (section_keys E s) \<and> presses r = [])
   \<and> presses (run_sections E ss tr)
       = presses tr @ concat (map (\<lambda>s. key_names (section_keys E s)) ss)
   \<and> releases (run_sections E ss tr)
       = releases tr @ concat (map (\<lambda>s. key_names (section_keys E s)) ss)"
  using run_section_suffix [of E s tr] run_sections_presses_releases [of E ss tr]
  by blast

theorem press_release_balance_witness:
  "presses (run_sections failing_env [''ctrl+a'', ''delay'', ''b''] [])
     = [Str ''ctrl'', Str ''a'', Str ''b'']
   \<and> releases (run_sections failing_env [''ctrl+a'', ''delay'', ''b''] [])
     = [Str ''ctrl'', Str ''a'', Str ''b'']"
  using press_release_balance [of failing_env "''ctrl''" "[]" "[''ctrl+a'', ''delay'', ''b'']"]
  by (simp add: failing_env_def plain_env_def lower_def lower_char_def startswith_def
      translate_def replace_special_keys_def section_keys_def key_names_def)

text \<open>
  C6. A key press that is not consumed as a wake returns normally, whatever raises. Its
  calls are, in this order: the spawn of the command if one is bound; the calls of the
  macro, the same as when nothing raises; the typing of the text if one is bound; the
  brightness change if one is bound (followed by the read-back of the level unless the
  change raised). The page of the target device is set if a page switch is bound.
\<close>

theorem every_step_attempted:
  assumes d: "dimmers w deck_id = Some d" and nw: "fst (reset d) = Inr False"
    and b: "b = button E deck_id (pages w deck_id) key"
  shows "\<exists>w' rest. handle_keypress (E :: 'k env) w deck_id key True = Inr w'
     \<and> calls (trace w') = calls (trace w)
         @ (if command b \<noteq> [] then [Popen (command b)] else [])
         @ calls (run_keys (E\<lparr>raises := \<lambda>tr c. False\<rparr>) (keys b) [])
         @ (if write_text b \<noteq> [] then [Type (write_text b)] else [])
         @ (if brightness_change b \<noteq> 0
            then ApiChangeBrightness deck_id (brightness_change b) # rest else [])
     \<and> set rest \<subseteq> {ApiGetBrightness deck_id}
     \<and> pages w' = (if switch_page b \<noteq> 0
                    then (pages w)(target_device b := switch_page b - 1) else pages w)"
proof -
  let ?w0 = "w\<lparr>dimmers := (dimmers w)(deck_id \<mapsto> snd (reset d))\<rparr>"
  let ?w3 = "write_step E b (keys_step E b (command_step E b ?w0))"
  let ?w5 = "page_step b (brightness_step E deck_id b ?w3)"
  have h: "handle_keypress E w deck_id key True = Inr ?w5"
    using handle_keypress_not_woken [OF d nw] b by simp
  obtain rest where rest:
    "calls (trace (brightness_step E deck_id b ?w3))
       = calls (trace ?w3)
         @ (if brightness_change b \<noteq> 0
            then ApiChangeBrightness deck_id (brightness_change b) # rest else [])"
    "set rest \<subseteq> {ApiGetBrightness deck_id}"
    using brightness_step_calls [of E deck_id b ?w3] by blast
  have c3: "calls (trace ?w3) = calls (trace w)
         @ (if command b \<noteq> [] then [Popen (command b)] else [])
         @ calls (run_keys (E\<lparr>raises := \<lambda>tr c. False\<rparr>) (keys b) [])
         @ (if write_text b \<noteq> [] then [Type (write_text b)] else [])"
    by (simp only: write_step_calls keys_step_calls command_step_calls) simp
  have c5: "calls (trace ?w5) = calls (trace w)
         @ (if command b \<noteq> [] then [Popen (command b)] else [])
         @ calls (run_keys (E\<lparr>raises := \<lambda>tr c. False\<rparr>) (keys b) [])
         @ (if write_text b \<noteq> [] then [Type (write_text b)] else [])
         @ (if brightness_change b \<noteq> 0
            then ApiChangeBrightness deck_id (brightness_change b) # rest else [])"
    by (simp only: page_step_keeps rest(1) c3) simp
  have p5: "pages ?w5 = (if switch_page b \<noteq> 0
                    then (pages w)(target_device b := switch_page b - 1) else pages w)"
    by (simp add: page_step_pages steps_keep_pages)
  show ?thesis using h c5 rest(2) p5 by blast
qed

theorem every_step_attempted_witness:
  "dimmers awake_world ''D1'' = Some (snd (reset (Dimmer 10 50)))
   \<and> fst (reset (snd (reset (Dimmer 10 50)))) = Inr False
   \<and> (\<exists>w' rest. handle_keypress failing_env awake_world ''D1'' 0 True = Inr w'
          \<and> calls (trace w')
              = [Popen ''xdotool key a'',
                 Press (Str ''ctrl''), Press (Str ''a''),
                 Release (Str ''ctrl''), Release (Str ''a''),
                 Sleep (Finite (1 / 2)),
                 Press (Str ''b''), Release (Str ''b''),
                 Type ''hi'',
                 ApiChangeBrightness ''D1'' 10] @ rest
          \<and> pages w' ''D2'' = 1)"
proof -
  have h1: "dimmers awake_world ''D1'' = Some (snd (reset (Dimmer 10 50)))"
    by (simp add: awake_world_def)
  have h2: "fst (reset (snd (reset (Dimmer 10 50)))) = Inr False"
    by (simp add: dimmer_defs Dimmer_def Let_def)
  have h3: "example_button = button failing_env ''D1'' (pages awake_world ''D1'') 0"
    by (simp add: failing_env_def)
  have m: "calls (run_keys (failing_env\<lparr>raises := \<lambda>tr c. False\<rparr>) ''ctrl+a,delay,b'' [])
             = [Press (Str ''ctrl''), Press (Str ''a''),
                Release (Str ''ctrl''), Release (Str ''a''),
                Sleep (Finite (1 / 2)),
                Press (Str ''b''), Release (Str ''b'')]"
    by (simp add: failing_env_def plain_env_def run_keys_def strip_def isspace_def
        remove_spaces_def lower_def lower_char_def startswith_def translate_def
        replace_special_keys_def section_keys_def run_section_def press_step_def
        release_step_def delay_step_def sleep_time_def attempt_def truthy_def Let_def)
  obtain w' rest where w:
    "handle_keypress failing_env awake_world ''D1'' 0 True = Inr w'"
    "calls (trace w') = calls (trace awake_world)
         @ (if command example_button \<noteq> [] then [Popen (command example_button)] else [])
         @ calls (run_keys (failing_env\<lparr>raises := \<lambda>tr c. False\<rparr>) (keys example_button) [])
         @ (if write_text example_button \<noteq> [] then [Type (write_text example_button)] else [])
         @ (if brightness_change example_button \<noteq> 0
            then ApiChangeBrightness ''D1'' (brightness_change example_button) # rest
            else [])"
    "pages w' = (if switch_page example_button \<noteq> 0
                 then (pages awake_world)(target_device example_button
                        := switch_page example_button - 1)
                 else pages awake_world)"
    using every_step_attempted [OF h1 h2 h3] by blast
  have "calls (trace w')
              = [Popen ''xdotool key a'',
                 Press (Str ''ctrl''), Press (Str ''a''),
                 Release (Str ''ctrl''), Release (Str ''a''),
                 Sleep (Finite (1 / 2)),
                 Press (Str ''b''), Release (Str ''b''),
                 Type ''hi'',
                 ApiChangeBrightness ''D1'' 10] @ rest"
    using w(2) m by (simp add: example_button_def awake_world_def)
  moreover have "pages w' ''D2'' = 1"
    using w(3) by (simp add: example_button_def)
  ultimately show ?thesis using h1 h2 w(1) by blast
qed

text \<open>
  C7. For a token recognised as a delay: with nothing after "delay" the sleep time is
  0.5 and the executor sleeps for it; with a suffix that \<open>float\<close> rejects the sleep time
  is 0, the failure is printed and nothing else happens; and whenever the sleep time is
  0 the token adds no call at all, neither a sleep nor a press or release. The release
  phase skips the token.
\<close>

theorem delay_sleep_time:
  assumes "is_delay (Str s)"
  shows "(drop 5 s = [] \<longrightarrow> sleep_time E s = (Finite (1 / 2), [])
            \<and> calls (press_step E (Str s) tr) = calls tr @ [Sleep (Finite (1 / 2))])
   \<and> (drop 5 s \<noteq> [] \<and> float E (drop 5 s) = None
        \<longrightarrow> sleep_time E s = (Finite 0, [Print (CouldNotConvert (drop 5 s))])
            \<and> press_step E (Str s) tr = tr @ [Print (CouldNotConvert (drop 5 s))])
   \<and> (fst (sleep_time E s) = Finite 0 \<longrightarrow> calls (press_step E (Str s) tr) = calls tr)
   \<and> release_step E (Str s) tr = tr"
proof -
  have step: "press_step E (Str s) tr = delay_step E s tr"
    using assms by (simp add: press_step_def)
  have a: "drop 5 s = [] \<longrightarrow> sleep_time E s = (Finite (1 / 2), [])
            \<and> calls (press_step E (Str s) tr) = calls tr @ [Sleep (Finite (1 / 2))]"
    by (simp add: step delay_step_def sleep_time_def truthy_def attempt_append
        calls_append calls_attempted)
  have b: "drop 5 s \<noteq> [] \<and> float E (drop 5 s) = None
        \<longrightarrow> sleep_time E s = (Finite 0, [Print (CouldNotConvert (drop 5 s))])
            \<and> press_step E (Str s) tr = tr @ [Print (CouldNotConvert (drop 5 s))]"
    by (simp add: step delay_step_def sleep_time_def truthy_def Let_def)
  have c: "fst (sleep_time E s) = Finite 0 \<longrightarrow> calls (press_step E (Str s) tr) = calls tr"
    by (simp add: step delay_step_def truthy_def split_def calls_append calls_printed)
  have d: "release_step E (Str s) tr = tr"
    using assms by (simp add: release_step_def)
  show ?thesis using a b c d by blast
qed

theorem delay_sleep_time_witness:
  "is_delay (Str ''delay'' :: nat key_name)
   \<and> sleep_time failing_env ''delay'' = (Finite (1 / 2), [])
   \<and> calls (press_step failing_env (Str ''delay'') []) = [Sleep (Finite (1 / 2))]
   \<and> is_delay (Str ''delayxyz'' :: nat key_name)
   \<and> press_step failing_env (Str ''delayxyz'') [] = [Print (CouldNotConvert ''xyz'')]
   \<and> is_delay (Str ''delay0'' :: nat key_name)
   \<and> calls (press_step failing_env (Str ''delay0'') []) = []"
proof -
  have h1: "is_delay (Str ''delay'' :: nat key_name)" by (simp add: startswith_def)
  have h2: "is_delay (Str ''delayxyz'' :: nat key_name)" by (simp add: startswith_def)
  have h3: "is_delay (Str ''delay0'' :: nat key_name)" by (simp add: startswith_def)
  have f: "float failing_env ''xyz'' = None" "float failing_env ''0'' = Some (Finite 0)"
    by (simp_all add: failing_env_def plain_env_def)
  have z: "fst (sleep_time failing_env ''delay0'') = Finite 0"
    by (simp add: sleep_time_def f)
  show ?thesis
    using h1 h2 h3 z f
      delay_sleep_time [OF h1, of failing_env "[]"]
      delay_sleep_time [OF h2, of failing_env "[]"]
      delay_sleep_time [OF h3, of failing_env "[]"]
    by simp
qed

text \<open>
  C8, as amended. A dimmer is constructed with the current brightness -1, and it stays
  -1 until the first \<open>reset()\<close> or \<open>stop()\<close>. From then on, through every sequence of
  resets, stops, dims and timer expiries, it lies between 0 and the normal brightness,
  hence within 0..100. A timer expiry lowers a nonzero brightness by exactly one and
  leaves it otherwise, and the tick that finds the brightness at 0 ends the ramp. The
  timeout is one of those whose milliseconds \<open>QTimer.start\<close> accepts.
\<close>

theorem dimmer_brightness_range:
  assumes "0 \<le> b" and "b \<le> 100" and "0 \<le> t" and "t \<le> 2147483"
  shows "(if \<exists>op \<in> set ops. sets_brightness op
          then 0 \<le> dimmer_brightness (run ops (Dimmer t b))
             \<and> dimmer_brightness (run ops (Dimmer t b)) \<le> b
             \<and> dimmer_brightness (run ops (Dimmer t b)) \<le> 100
          else dimmer_brightness (run ops (Dimmer t b)) = - 1)
   \<and> dimmer_brightness (change_timer_fires d)
       = (if (case change_timer d of None \<Rightarrow> False | Some q \<Rightarrow> can_fire q)
             \<and> dimmer_brightness d \<noteq> 0
          then dimmer_brightness d - 1 else dimmer_brightness d)
   \<and> dimmer_brightness (timer_fires d)
       = (if (case timer d of None \<Rightarrow> False | Some q \<Rightarrow> can_fire q)
             \<and> dimmer_brightness d \<noteq> 0
          then dimmer_brightness d - 1 else dimmer_brightness d)
   \<and> ((case change_timer d of None \<Rightarrow> False | Some q \<Rightarrow> can_fire q)
        \<and> dimmer_brightness d = 0
        \<longrightarrow> change_timer (change_timer_fires d) = None)"
proof -
  have "fresh b (Dimmer t b)" using assms(3,4) by (simp add: fresh_def Dimmer_def)
  then have "if \<exists>op \<in> set ops. sets_brightness op then good b (run ops (Dimmer t b))
             else fresh b (run ops (Dimmer t b))"
    using fresh_run [OF assms(1)] by blast
  then have a: "if \<exists>op \<in> set ops. sets_brightness op
          then 0 \<le> dimmer_brightness (run ops (Dimmer t b))
             \<and> dimmer_brightness (run ops (Dimmer t b)) \<le> b
             \<and> dimmer_brightness (run ops (Dimmer t b)) \<le> 100
          else dimmer_brightness (run ops (Dimmer t b)) = - 1"
    using assms(2) by (auto simp: good_def fresh_def split: if_splits)
  have b: "dimmer_brightness (change_timer_fires d)
       = (if (case change_timer d of None \<Rightarrow> False | Some q \<Rightarrow> can_fire q)
             \<and> dimmer_brightness d \<noteq> 0
          then dimmer_brightness d - 1 else dimmer_brightness d)"
    by (cases "change_timer d")
       (simp_all add: change_timer_fires_def change_brightness_def Let_def
          brightness_callback_def start_def)
  have c: "dimmer_brightness (timer_fires d)
       = (if (case timer d of None \<Rightarrow> False | Some q \<Rightarrow> can_fire q)
             \<and> dimmer_brightness d \<noteq> 0
          then dimmer_brightness d - 1 else dimmer_brightness d)"
    by (cases "timer d")
       (simp_all add: timer_fires_def change_brightness_def Let_def
          brightness_callback_def start_def)
  have d: "(case change_timer d of None \<Rightarrow> False | Some q \<Rightarrow> can_fire q)
        \<and> dimmer_brightness d = 0
        \<longrightarrow> change_timer (change_timer_fires d) = None"
    by (cases "change_timer d")
       (simp_all add: change_timer_fires_def change_brightness_def)
  show ?thesis using a b c d by blast
qed

theorem dimmer_brightness_range_witness:
  "(0::int) \<le> 50 \<and> (50::int) \<le> 100 \<and> (0::int) \<le> 10 \<and> (10::int) \<le> 2147483
   \<and> dimmer_brightness (run [Reset, TimerFires, ChangeTimerFires] (Dimmer 10 50)) = 48
   \<and> 0 \<le> dimmer_brightness (run [Reset, TimerFires, ChangeTimerFires] (Dimmer 10 50))
   \<and> dimmer_brightness (run [Reset, TimerFires, ChangeTimerFires] (Dimmer 10 50)) \<le> 100"
proof -
  have v: "dimmer_brightness (run [Reset, TimerFires, ChangeTimerFires] (Dimmer 10 50)) = 48"
    by (simp add: dimmer_defs Dimmer_def Let_def)
  show ?thesis
    using v dimmer_brightness_range [of 50 10 "[Reset, TimerFires, ChangeTimerFires]"
        "Dimmer 10 50"]
    by simp
qed

text \<open>
  C8 as stated fails at the construction: the current brightness of a new dimmer is -1,
  outside 0..100, and operations that do not set it leave it there.
\<close>

theorem dimmer_brightness_range_counterexample:
  "\<not> (0 \<le> dimmer_brightness (run [] (Dimmer 10 50))
       \<and> dimmer_brightness (run [] (Dimmer 10 50)) \<le> 100)
   \<and> dimmer_brightness (run [Dim True, TimerFires] (Dimmer 10 50)) = - 1"
  by (simp add: dimmer_defs Dimmer_def Let_def)



text \<open>
  C10. If, in the brightness step, the change of the brightness raises, or the change
  succeeds and the read-back of the level raises, then the dimmer of the device is left
  as the \<open>reset()\<close> at the start of the key press left it: its normal brightness and its
  callback log are those from before the key press, and its timers are those of that
  first reset, not those another \<open>reset()\<close> would have made. The page switch is still
  done.
\<close>

theorem brightness_failure_keeps_dimmer:
  assumes d: "dimmers w deck_id = Some d" and nw: "fst (reset d) = Inr False"
    and b: "b = button E deck_id (pages w deck_id) key"
    and w3: "w3 = write_step E b (keys_step E b (command_step E b
                    (w\<lparr>dimmers := (dimmers w)(deck_id \<mapsto> snd (reset d))\<rparr>)))"
    and delta: "brightness_change b \<noteq> 0"
    and fails: "raises E (trace w3) (ApiChangeBrightness deck_id (brightness_change b))
         \<or> raises E (trace w3 @ [Call (ApiChangeBrightness deck_id (brightness_change b))])
              (ApiGetBrightness deck_id)"
  shows "\<exists>w'. handle_keypress E w deck_id key True = Inr w'
     \<and> dimmers w' = (dimmers w)(deck_id \<mapsto> snd (reset d))
     \<and> brightness (snd (reset d)) = brightness d
     \<and> callback_log (snd (reset d)) = callback_log d
     \<and> (timeout d \<noteq> 0 \<longrightarrow> dimmers w' deck_id \<noteq> Some (snd (reset (snd (reset d)))))
     \<and> pages w' = (if switch_page b \<noteq> 0
                    then (pages w)(target_device b := switch_page b - 1) else pages w)"
proof -
  let ?w5 = "page_step b (brightness_step E deck_id b w3)"
  have h: "handle_keypress E w deck_id key True = Inr ?w5"
    using handle_keypress_not_woken [OF d nw] b w3 by simp
  have "dimmers (brightness_step E deck_id b w3) = dimmers w3"
    using brightness_step_failure [OF delta fails] .
  then have d5: "dimmers ?w5 = (dimmers w)(deck_id \<mapsto> snd (reset d))"
    by (simp add: page_step_keeps w3 steps_keep_dimmers)
  have p5: "pages ?w5 = (if switch_page b \<noteq> 0
                    then (pages w)(target_device b := switch_page b - 1) else pages w)"
    by (simp add: page_step_pages steps_keep_pages w3)
  have r: "brightness (snd (reset d)) = brightness d
           \<and> callback_log (snd (reset d)) = callback_log d"
    using nw
    by (simp add: reset_def Let_def brightness_callback_def
        split: if_splits sum.splits)
  have n: "timeout d \<noteq> 0 \<longrightarrow> dimmers ?w5 deck_id \<noteq> Some (snd (reset (snd (reset d))))"
    using d5 reset_twice_differs [of d] by auto
  show ?thesis using h d5 p5 r n by blast
qed

theorem brightness_failure_keeps_dimmer_witness:
  "dimmers awake_world ''D1'' = Some (snd (reset (Dimmer 10 50)))
   \<and> fst (reset (snd (reset (Dimmer 10 50)))) = Inr False
   \<and> brightness_change (button failing_env ''D1'' (pages awake_world ''D1'') 0) \<noteq> 0
   \<and> raises failing_env [] (ApiChangeBrightness ''D1'' 10)
   \<and> (\<exists>w'. handle_keypress failing_env awake_world ''D1'' 0 True = Inr w'
          \<and> dimmers w' ''D1'' = Some (snd (reset (snd (reset (Dimmer 10 50)))))
          \<and> dimmers w' ''D1''
              \<noteq> Some (snd (reset (snd (reset (snd (reset (Dimmer 10 50)))))))
          \<and> brightness (snd (reset (snd (reset (Dimmer 10 50))))) = 50
          \<and> pages w' ''D2'' = 1)"
proof -
  have h1: "dimmers awake_world ''D1'' = Some (snd (reset (Dimmer 10 50)))"
    by (simp add: awake_world_def)
  have h2: "fst (reset (snd (reset (Dimmer 10 50)))) = Inr False"
    by (simp add: dimmer_defs Dimmer_def Let_def)
  have h3: "example_button = button failing_env ''D1'' (pages awake_world ''D1'') 0"
    by (simp add: failing_env_def)
  have h4: "brightness_change example_button \<noteq> 0"
    by (simp add: example_button_def)
  have h5: "raises failing_env tr c" for tr c
    by (simp add: failing_env_def)
  have b50: "brightness (snd (reset (Dimmer 10 50))) = 50"
    by (simp add: dimmer_defs Dimmer_def Let_def)
  have t10: "timeout (snd (reset (Dimmer 10 50))) \<noteq> 0"
    by (simp add: dimmer_defs Dimmer_def Let_def)
  obtain w' where w:
    "handle_keypress failing_env awake_world ''D1'' 0 True = Inr w'"
    "dimmers w' = (dimmers awake_world)(''D1'' \<mapsto> snd (reset (snd (reset (Dimmer 10 50)))))"
    "brightness (snd (reset (snd (reset (Dimmer 10 50)))))
       = brightness (snd (reset (Dimmer 10 50)))"
    "timeout (snd (reset (Dimmer 10 50))) \<noteq> 0 \<longrightarrow>
       dimmers w' ''D1'' \<noteq> Some (snd (reset (snd (reset (snd (reset (Dimmer 10 50)))))))"
    "pages w' = (if switch_page example_button \<noteq> 0
                 then (pages awake_world)(target_device example_button
                        := switch_page example_button - 1)
                 else pages awake_world)"
    using brightness_failure_keeps_dimmer [OF h1 h2 h3 refl h4 disjI1 [OF h5]] by blast
  have "pages w' ''D2'' = 1" using w(5) by (simp add: example_button_def)
  moreover have "dimmers w' ''D1'' = Some (snd (reset (snd (reset (Dimmer 10 50)))))"
    using w(2) by simp
  moreover have "dimmers w' ''D1''
              \<noteq> Some (snd (reset (snd (reset (snd (reset (Dimmer 10 50)))))))"
    using w(4) t10 by simp
  ultimately show ?thesis using h1 h2 h3 h4 h5 [of "[]"] w(1) w(3) b50 by auto
qed

end
